theory Spec2Isabelle
  imports Main "HOL-Library.Sublist"
begin

section \<open>JavaScript strings\<close>

text \<open>
  A JavaScript string is modelled as a \<open>string\<close>: a list of code units, here the
  code units below 256.  Offsets are natural numbers, as the lexer and the regular
  expression engine produce them.
\<close>

text \<open>\<^verbatim>\<open>source.slice(0, start) + (withSlice || '') + source.slice(end)\<close>:
  \<open>slice\<close> clamps at the length, as \<open>take\<close> and \<open>drop\<close> do, and
  \<^verbatim>\<open>withSlice || ''\<close> is \<open>withSlice\<close> itself for every string.\<close>

definition spliceString :: "string \<Rightarrow> string \<Rightarrow> nat \<Rightarrow> nat \<Rightarrow> string" where
  "spliceString source withSlice start end' = take start source @ withSlice @ drop end' source"

text \<open>\<^verbatim>\<open>str.substring(a, b)\<close> swaps its arguments when \<open>a > b\<close> and clamps at the length.\<close>

definition String_substring :: "string \<Rightarrow> nat \<Rightarrow> nat \<Rightarrow> string" where
  "String_substring str a b = take (max a b - min a b) (drop (min a b) str)"

text \<open>\<^verbatim>\<open>str.startsWith(p)\<close>.\<close>

definition startsWith :: "string \<Rightarrow> string \<Rightarrow> bool" where
  "startsWith str p = (take (length p) str = p)"

text \<open>\<^verbatim>\<open>str.replace(pat, rep)\<close> with a string pattern: the first occurrence only.
  (The source's replacement is the empty string, which has no \<^verbatim>\<open>$\<close> pattern.)\<close>

fun String_replace :: "string \<Rightarrow> string \<Rightarrow> string \<Rightarrow> string" where
  "String_replace pat rep [] = (if pat = [] then rep else [])"
| "String_replace pat rep (c # cs) =
     (if take (length pat) (c # cs) = pat then rep @ drop (length pat) (c # cs)
      else c # String_replace pat rep cs)"

text \<open>White space as \<^verbatim>\<open>trim()\<close> and \<^verbatim>\<open>\s\<close> read it, among the code units below 256:
  tab, line feed, vertical tab, form feed, carriage return, space, no-break space.\<close>

definition is_space :: "char \<Rightarrow> bool" where
  "is_space c = (c \<in> set [CHR 0x09, CHR 0x0A, CHR 0x0B, CHR 0x0C, CHR 0x0D, CHR 0x20, CHR 0xA0])"

definition String_trim :: "string \<Rightarrow> string" where
  "String_trim str = rev (dropWhile is_space (rev (dropWhile is_space str)))"

text \<open>\<^verbatim>\<open>xs.join(' ')\<close>.\<close>

fun join_space :: "string list \<Rightarrow> string" where
  "join_space [] = []"
| "join_space [x] = x"
| "join_space (x # y # ys) = x @ '' '' @ join_space (y # ys)"

text \<open>\<^verbatim>\<open>JSON.stringify\<close> of a string: the text between double quotes, with the double
  quote, the backslash and the control characters escaped.\<close>

definition hex_digit :: "nat \<Rightarrow> char" where
  "hex_digit n = (''0123456789abcdef'' ! (n mod 16))"

definition json_escape :: "char \<Rightarrow> string" where
  "json_escape c =
     (if c = CHR 0x22 then [CHR 0x5C, CHR 0x22]
      else if c = CHR 0x5C then [CHR 0x5C, CHR 0x5C]
      else if c = CHR 0x08 then [CHR 0x5C, CHR ''b'']
      else if c = CHR 0x0C then [CHR 0x5C, CHR ''f'']
      else if c = CHR 0x0A then [CHR 0x5C, CHR ''n'']
      else if c = CHR 0x0D then [CHR 0x5C, CHR ''r'']
      else if c = CHR 0x09 then [CHR 0x5C, CHR ''t'']
      else if (of_char c :: nat) < 32
        then [CHR 0x5C, CHR ''u'', CHR ''0'', CHR ''0'',
              hex_digit (of_char c div 16), hex_digit (of_char c)]
      else [c])"

definition JSON_stringify :: "string \<Rightarrow> string" where
  "JSON_stringify str = [CHR 0x22] @ concat (map json_escape str) @ [CHR 0x22]"

subsection \<open>Regular expression objects\<close>

text \<open>
  The three expressions \<^verbatim>\<open>HTML_JS_REGEX\<close>, \<^verbatim>\<open>CSS_REGEX\<close> and \<^verbatim>\<open>HTML_STYLE_REGEX\<close>
  are imported from a module outside the sources, so an expression is a parameter: its
  matcher (the first match at or after a position) and its global flag.  A match carries
  what the source destructures: the index, the whole match and two capture groups.
\<close>

record rmatch =
  m_index :: nat
  m_full :: string
  m_group1 :: string
  m_group2 :: string

record regexp =
  exec_from :: "string \<Rightarrow> nat \<Rightarrow> rmatch option"
  global :: bool

text \<open>\<^verbatim>\<open>re.exec(str)\<close> on an object whose \<^verbatim>\<open>lastIndex\<close> is given; it returns the match
  and the new \<^verbatim>\<open>lastIndex\<close>.  A global expression starts at \<^verbatim>\<open>lastIndex\<close>, moves it to
  the end of the match, and resets it to 0 when nothing matches; any other expression
  starts at 0 and leaves \<^verbatim>\<open>lastIndex\<close> alone.\<close>

definition RegExp_exec :: "regexp \<Rightarrow> string \<Rightarrow> nat \<Rightarrow> rmatch option \<times> nat" where
  "RegExp_exec re str lastIndex =
     (if global re then
        (if lastIndex > length str then (None, 0)
         else case exec_from re str lastIndex of
                None \<Rightarrow> (None, 0)
              | Some m \<Rightarrow> (Some m, m_index m + length (m_full m)))
      else (exec_from re str 0, lastIndex))"

text \<open>\<^verbatim>\<open>WEBPACK_MAGIC_COMMENT_REGEX = /\/\*[\s\S]*?\*\//g\<close>: a block comment, from
  \<^verbatim>\<open>/*\<close> to the nearest \<^verbatim>\<open>*/\<close> after it.\<close>

fun find_comment_close :: "string \<Rightarrow> nat option" where
  "find_comment_close (c # c' # cs) =
     (if c = CHR ''*'' \<and> c' = CHR ''/'' then Some 0
      else map_option Suc (find_comment_close (c' # cs)))"
| "find_comment_close _ = None"

fun magic_comments :: "string \<Rightarrow> string list" where
  "magic_comments [] = []"
| "magic_comments (c # cs) =
     (if c = CHR ''/'' \<and> take 1 cs = ''*'' then
        (case find_comment_close (drop 1 cs) of
           Some k \<Rightarrow> take (k + 4) (c # cs) # magic_comments (drop (k + 3) cs)
         | None \<Rightarrow> magic_comments cs)
      else magic_comments cs)"

text \<open>\<^verbatim>\<open>spec.match(WEBPACK_MAGIC_COMMENT_REGEX)\<close>: every match, or null when there is none.\<close>

definition match_magic_comments :: "string \<Rightarrow> string list option" where
  "match_magic_comments spec = (case magic_comments spec of [] \<Rightarrow> None | ms \<Rightarrow> Some ms)"

section \<open>rewrite-imports.ts\<close>

text \<open>What the code throws: the lexer's error, the error of \<^verbatim>\<open>transformFileImports\<close>
  (with the extension its message names), an error of an external collaborator (the dev
  server's load, the package installer), and the TypeError of spreading \<^verbatim>\<open>undefined\<close>.\<close>

datatype error =
    LexerError
  | IncompatibleFileType string
  | ExternalError string
  | NotIterable

text \<open>An import record of es-module-lexer: the span \<open>[s, e)\<close> and \<open>d\<close>, which is
  \<open>-1\<close> for a static import, \<open>-2\<close> for \<^verbatim>\<open>import.meta\<close> and the offset of the call for
  a dynamic import.\<close>

record import_spec =
  imp_s :: nat
  imp_e :: nat
  imp_d :: int

text \<open>What the module imports from outside the sources: the lexer's \<^verbatim>\<open>parse\<close>
  (\<open>None\<close> when it throws), \<^verbatim>\<open>matchDynamicImportValue\<close> (\<open>None\<close> for null) and the
  three expressions.\<close>

record imports_env =
  parse :: "string \<Rightarrow> import_spec list option"
  matchDynamicImportValue :: "string \<Rightarrow> string option"
  HTML_JS_REGEX :: regexp
  CSS_REGEX :: regexp
  HTML_STYLE_REGEX :: regexp

record SnowpackSourceFile =
  baseExt :: string
  contents :: string

text \<open>\<^verbatim>\<open>!!x\<close> for a string or null.\<close>

definition truthy :: "string option \<Rightarrow> bool" where
  "truthy v = (case v of None \<Rightarrow> False | Some str \<Rightarrow> str \<noteq> [])"

definition keep_import :: "imports_env \<Rightarrow> string \<Rightarrow> import_spec \<Rightarrow> bool" where
  "keep_import env code imp =
     (if imp_d imp = - 2 then False
      else if imp_d imp > - 1
        then truthy (matchDynamicImportValue env (String_substring code (imp_s imp) (imp_e imp)))
      else True)"

definition scanCodeImportsExports :: "imports_env \<Rightarrow> string \<Rightarrow> error + import_spec list" where
  "scanCodeImportsExports env code =
     (case parse env code of
        None \<Rightarrow> Inl LexerError
      | Some imports \<Rightarrow> Inr (filter (keep_import env code) imports))"

text \<open>The text spliced in for one record, given the text of its span: the body of the
  loop of \<^verbatim>\<open>transformEsmImports\<close> up to the splice.\<close>

definition rewrittenImport :: "imports_env \<Rightarrow> (string \<Rightarrow> string) \<Rightarrow> import_spec \<Rightarrow> string \<Rightarrow> string" where
  "rewrittenImport env replaceImport imp spec =
     (if imp_d imp > - 1 then
        (let webpackMagicCommentMatches = match_magic_comments spec;
             spec' = (case matchDynamicImportValue env spec of None \<Rightarrow> [] | Some v \<Rightarrow> v)
         in case webpackMagicCommentMatches of
              Some ms \<Rightarrow> join_space ms @ '' '' @ JSON_stringify (replaceImport spec')
            | None \<Rightarrow> JSON_stringify (replaceImport spec'))
      else replaceImport spec)"

definition transformEsmImports_step ::
  "imports_env \<Rightarrow> (string \<Rightarrow> string) \<Rightarrow> import_spec \<Rightarrow> string \<Rightarrow> string" where
  "transformEsmImports_step env replaceImport imp rewrittenCode =
     spliceString rewrittenCode
       (rewrittenImport env replaceImport imp
          (String_substring rewrittenCode (imp_s imp) (imp_e imp)))
       (imp_s imp) (imp_e imp)"

definition transformEsmImports ::
  "imports_env \<Rightarrow> string \<Rightarrow> (string \<Rightarrow> string) \<Rightarrow> error + string" where
  "transformEsmImports env code replaceImport =
     (case scanCodeImportsExports env code of
        Inl err \<Rightarrow> Inl err
      | Inr imports \<Rightarrow>
          Inr (fold (transformEsmImports_step env replaceImport) (rev imports) code))"

text \<open>The loop of \<^verbatim>\<open>transformCssImports\<close>, with the expression's \<^verbatim>\<open>lastIndex\<close> as a
  loop variable.  The loop need not end (\<open>None\<close>).\<close>

definition css_rule :: "(string \<Rightarrow> string) \<Rightarrow> string \<Rightarrow> string" where
  \<open>css_rule replaceImport spec =
     ''@import "'' @ String_replace ''.proxy.js'' [] (replaceImport spec) @ ''";''\<close>

partial_function (option) transformCssImports_loop ::
  "imports_env \<Rightarrow> (string \<Rightarrow> string) \<Rightarrow> string \<Rightarrow> nat \<Rightarrow> string option" where
  "transformCssImports_loop env replaceImport rewrittenCode lastIndex =
     (case RegExp_exec (CSS_REGEX env) rewrittenCode lastIndex of
        (None, _) \<Rightarrow> Some rewrittenCode
      | (Some m, lastIndex') \<Rightarrow>
          transformCssImports_loop env replaceImport
            (spliceString rewrittenCode (css_rule replaceImport (m_group1 m))
               (m_index m) (m_index m + length (m_full m)))
            lastIndex')"

definition transformCssImports ::
  "imports_env \<Rightarrow> string \<Rightarrow> (string \<Rightarrow> string) \<Rightarrow> string option" where
  "transformCssImports env code replaceImport = transformCssImports_loop env replaceImport code 0"

text \<open>The two loops of \<^verbatim>\<open>transformHtmlImports\<close>.\<close>

partial_function (option) transformHtmlImports_js ::
  "imports_env \<Rightarrow> (string \<Rightarrow> string) \<Rightarrow> string \<Rightarrow> nat \<Rightarrow> (error + string) option" where
  "transformHtmlImports_js env replaceImport rewrittenCode lastIndex =
     (case RegExp_exec (HTML_JS_REGEX env) rewrittenCode lastIndex of
        (None, _) \<Rightarrow> Some (Inr rewrittenCode)
      | (Some m, lastIndex') \<Rightarrow>
          (if String_trim (m_group2 m) \<noteq> [] then
             (case transformEsmImports env (m_group2 m) replaceImport of
                Inl err \<Rightarrow> Some (Inl err)
              | Inr scriptCode' \<Rightarrow>
                  transformHtmlImports_js env replaceImport
                    (spliceString rewrittenCode scriptCode'
                       (m_index m + length (m_group1 m))
                       (m_index m + length (m_group1 m) + length (m_group2 m)))
                    lastIndex')
           else transformHtmlImports_js env replaceImport rewrittenCode lastIndex'))"

partial_function (option) transformHtmlImports_css ::
  "imports_env \<Rightarrow> (string \<Rightarrow> string) \<Rightarrow> string \<Rightarrow> nat \<Rightarrow> string option" where
  "transformHtmlImports_css env replaceImport rewrittenCode lastIndex =
     (case RegExp_exec (HTML_STYLE_REGEX env) rewrittenCode lastIndex of
        (None, _) \<Rightarrow> Some rewrittenCode
      | (Some m, lastIndex') \<Rightarrow>
          (if String_trim (m_group2 m) \<noteq> [] then
             (case transformCssImports env (m_group2 m) replaceImport of
                None \<Rightarrow> None
              | Some styleCode' \<Rightarrow>
                  transformHtmlImports_css env replaceImport
                    (spliceString rewrittenCode styleCode'
                       (m_index m + length (m_group1 m))
                       (m_index m + length (m_group1 m) + length (m_group2 m)))
                    lastIndex')
           else transformHtmlImports_css env replaceImport rewrittenCode lastIndex'))"

definition transformHtmlImports ::
  "imports_env \<Rightarrow> string \<Rightarrow> (string \<Rightarrow> string) \<Rightarrow> (error + string) option" where
  "transformHtmlImports env code replaceImport =
     (case transformHtmlImports_js env replaceImport code 0 of
        None \<Rightarrow> None
      | Some (Inl err) \<Rightarrow> Some (Inl err)
      | Some (Inr rewrittenCode) \<Rightarrow>
          map_option Inr (transformHtmlImports_css env replaceImport rewrittenCode 0))"

text \<open>\<open>None\<close>: a loop of the rewriter does not end; \<open>Some (Inl err)\<close>: it throws.\<close>

definition transformFileImports ::
  "imports_env \<Rightarrow> SnowpackSourceFile \<Rightarrow> (string \<Rightarrow> string) \<Rightarrow> (error + string) option" where
  "transformFileImports env file replaceImport =
     (if baseExt file = ''.js'' then Some (transformEsmImports env (contents file) replaceImport)
      else if baseExt file = ''.html'' then transformHtmlImports env (contents file) replaceImport
      else if baseExt file = ''.css''
        then map_option Inr (transformCssImports env (contents file) replaceImport)
      else Some (Inl (IncompatibleFileType (baseExt file))))"

subsection \<open>A stylesheet import expression\<close>

text \<open>
  Modelled from the spec: the value of \<^verbatim>\<open>CSS_REGEX\<close>, which the module imports from
  outside the sources.  The spec: "For stylesheet content: locate every @import rule and
  capture the quoted URL argument."  A rule is \<^verbatim>\<open>@import\<close>, optional white space, a
  quote, the argument up to the nearest quote that is followed by a semicolon.  The
  expression is global: the loop that uses it resumes each scan at \<^verbatim>\<open>lastIndex\<close>.
\<close>

definition is_quote :: "char \<Rightarrow> bool" where
  "is_quote c = (c = CHR 0x22 \<or> c = CHR 0x27)"

fun find_quote_semi :: "string \<Rightarrow> nat option" where
  "find_quote_semi (c # c' # cs) =
     (if is_quote c \<and> c' = CHR '';'' then Some 0
      else map_option Suc (find_quote_semi (c' # cs)))"
| "find_quote_semi _ = None"

text \<open>A rule at the very start of the text: the whole rule and its argument.\<close>

definition css_import_here :: "string \<Rightarrow> (string \<times> string) option" where
  "css_import_here str =
     (if take 7 str = ''@import'' then
        (case dropWhile is_space (drop 7 str) of
           [] \<Rightarrow> None
         | q # body \<Rightarrow>
             (if is_quote q then
                (case find_quote_semi body of
                   None \<Rightarrow> None
                 | Some k \<Rightarrow> Some (take (length str - length body + k + 2) str, take k body))
              else None))
      else None)"

fun css_import_search :: "nat \<Rightarrow> string \<Rightarrow> rmatch option" where
  "css_import_search i [] = None"
| "css_import_search i (c # cs) =
     (case css_import_here (c # cs) of
        Some (full, spec) \<Rightarrow>
          Some \<lparr>m_index = i, m_full = full, m_group1 = spec, m_group2 = []\<rparr>
      | None \<Rightarrow> css_import_search (Suc i) cs)"

text \<open>Modelled from the spec: \<^verbatim>\<open>CSS_REGEX\<close>, the global expression that finds the next
  \<^verbatim>\<open>@import\<close> rule and captures its quoted argument.\<close>

definition css_import_regexp :: regexp where
  "css_import_regexp =
     \<lparr>exec_from = (\<lambda>str start. css_import_search start (drop start str)), global = True\<rparr>"

text \<open>An expression that matches nothing, and a lexer that finds no import.\<close>

definition no_match_regexp :: regexp where
  "no_match_regexp = \<lparr>exec_from = (\<lambda>str start. None), global = True\<rparr>"

definition css_env :: imports_env where
  "css_env =
     \<lparr>parse = (\<lambda>code. Some []), matchDynamicImportValue = (\<lambda>spec. None),
      HTML_JS_REGEX = no_match_regexp, CSS_REGEX = css_import_regexp,
      HTML_STYLE_REGEX = no_match_regexp\<rparr>"

section \<open>The build command\<close>

subsection \<open>State and effects\<close>

type_synonym ImportMap = "(string \<times> string) list"

record LoadUrlOptions =
  isSSR :: bool
  isHMR :: bool
  isResolve :: bool
  importMap :: "ImportMap option"

record load_result =
  res_contents :: string
  res_imports :: "string list"

datatype fs_node = File string | Dir "(string \<times> fs_node) list"

text \<open>The calls the build makes to its collaborators and to the file system, in the
  order it makes them.  \<open>Mkdirp url\<close> and \<open>WriteFile url c\<close> stand for
  \<^verbatim>\<open>mkdirp(path.dirname(path.join(buildDirectoryLoc, url)))\<close> and
  \<^verbatim>\<open>fs.writeFile(path.join(buildDirectoryLoc, url), c)\<close>.\<close>

datatype event =
    DeleteFromBuildSafe
  | MkdirpSync
  | StartServer
  | LoadUrl string LoadUrlOptions
  | Mkdirp string
  | WriteFile string string
  | InstallPackages "string list"
  | RunBuiltInOptimize
  | RunPipelineOptimizeStep
  | RemoveEmptyFolders
  | RunPipelineCleanupStep
  | Shutdown
  | OnFileChangeCallback string

text \<open>A JavaScript \<^verbatim>\<open>Set\<close> of strings: its elements in insertion order, none twice.\<close>

definition Set_add :: "string \<Rightarrow> string list \<Rightarrow> string list" where
  "Set_add x xs = (if x \<in> set xs then xs else xs @ [x])"

definition Set_of :: "string list \<Rightarrow> string list" where
  "Set_of xs = fold Set_add xs []"

text \<open>The variables \<^verbatim>\<open>build\<close> closes over; \<^verbatim>\<open>allFileUrlsToProcess\<close> is an array whose
  \<^verbatim>\<open>pop\<close> takes the last element.\<close>

record build_state =
  allBareModuleSpecifiers :: "string list"
  allFileUrlsUnique :: "string list"
  allFileUrlsToProcess :: "string list"
  events :: "event list"

record SnowpackConfig =
  buildOptions_watch :: bool
  buildOptions_ssr :: bool
  buildOptions_clean :: bool
  devOptions_hmr :: bool
  has_optimize :: bool

text \<open>The collaborators, none of them in the sources: the dev server's \<^verbatim>\<open>loadUrl\<close>,
  \<^verbatim>\<open>getUrlsForFile\<close> (\<open>None\<close> for undefined), the files the mount globs find, the
  value of \<^verbatim>\<open>pkgUrlPrefix\<close>, the package installer, and the directory tree found at
  \<^verbatim>\<open>buildDirectoryLoc\<close> after the effects so far.\<close>

record build_env =
  loadUrl :: "string \<Rightarrow> LoadUrlOptions \<Rightarrow> error + load_result"
  getUrlsForFile :: "string \<Rightarrow> string list option"
  mountedFiles :: "string list"
  pkgUrlPrefix :: string
  installPackages :: "string list \<Rightarrow> error + ImportMap"
  outputTree :: "event list \<Rightarrow> fs_node"

definition getIsHmrEnabled :: "SnowpackConfig \<Rightarrow> bool" where
  "getIsHmrEnabled config = (buildOptions_watch config \<and> devOptions_hmr config)"

subsection \<open>removeEmptyFolders\<close>

text \<open>The function on the tree at \<^verbatim>\<open>directoryLoc\<close>: what is left of it (\<open>None\<close> when it
  was removed) and the value returned.\<close>

fun kept_entries :: "(string \<times> fs_node option) list \<Rightarrow> (string \<times> fs_node) list" where
  "kept_entries [] = []"
| "kept_entries ((name, None) # es) = kept_entries es"
| "kept_entries ((name, Some n) # es) = (name, n) # kept_entries es"

fun removeEmptyFolders :: "fs_node \<Rightarrow> fs_node option \<times> bool" where
  "removeEmptyFolders (File c) = (Some (File c), False)"
| "removeEmptyFolders (Dir files) =
     (if files = [] then (None, False)
      else
        let afterFiles =
              kept_entries (map (\<lambda>(name, n). (name, fst (removeEmptyFolders n))) files)
        in if afterFiles = [] then (None, True) else (Some (Dir afterFiles), True))"

subsection \<open>flushFileQueue\<close>

text \<open>The body of the loop over \<^verbatim>\<open>result.imports\<close>.\<close>

definition add_import :: "string \<Rightarrow> build_state \<Rightarrow> build_state" where
  "add_import importedUrl st =
     (if \<not> startsWith importedUrl ''/'' then
        st\<lparr>allBareModuleSpecifiers := Set_add importedUrl (allBareModuleSpecifiers st)\<rparr>
      else if importedUrl \<notin> set (allFileUrlsUnique st) then
        st\<lparr>allFileUrlsUnique := Set_add importedUrl (allFileUrlsUnique st),
           allFileUrlsToProcess := allFileUrlsToProcess st @ [importedUrl]\<rparr>
      else st)"

text \<open>One turn of the \<^verbatim>\<open>while\<close> loop, for a queue that is not empty.  An error of
  \<^verbatim>\<open>loadUrl\<close> leaves the loop, with the state as it is then.\<close>

definition flush_turn ::
  "build_env \<Rightarrow> bool \<Rightarrow> LoadUrlOptions \<Rightarrow> build_state \<Rightarrow> (error \<times> build_state) + build_state" where
  "flush_turn env ignorePkg loadOptions st =
     (let fileUrl = last (allFileUrlsToProcess st);
          st1 = st\<lparr>allFileUrlsToProcess := butlast (allFileUrlsToProcess st)\<rparr>
      in if ignorePkg \<and> startsWith fileUrl (pkgUrlPrefix env) then Inr st1
         else
           let st2 = st1\<lparr>events := events st1 @ [LoadUrl fileUrl loadOptions]\<rparr>
           in case loadUrl env fileUrl loadOptions of
                Inl err \<Rightarrow> Inl (err, st2)
              | Inr result \<Rightarrow>
                  Inr (fold add_import (res_imports result)
                         (st2\<lparr>events := events st2 @
                              [Mkdirp fileUrl, WriteFile fileUrl (res_contents result)]\<rparr>)))"

partial_function (option) flushFileQueue ::
  "build_env \<Rightarrow> bool \<Rightarrow> LoadUrlOptions \<Rightarrow> build_state \<Rightarrow> ((error \<times> build_state) + build_state) option" where
  "flushFileQueue env ignorePkg loadOptions st =
     (if length (allFileUrlsToProcess st) > 0 then
        (case flush_turn env ignorePkg loadOptions st of
           Inl thrown \<Rightarrow> Some (Inl thrown)
         | Inr st' \<Rightarrow> flushFileQueue env ignorePkg loadOptions st')
      else Some (Inr st))"

subsection \<open>build and command\<close>

text \<open>The mount loop: the URLs of every mounted file, in order.  Spreading an undefined
  result of \<^verbatim>\<open>getUrlsForFile\<close> throws.\<close>

fun mount_urls :: "(string \<Rightarrow> string list option) \<Rightarrow> string list \<Rightarrow> string list option" where
  "mount_urls g [] = Some []"
| "mount_urls g (f # fs) =
     (case g f of
        None \<Rightarrow> None
      | Some fileUrls \<Rightarrow> map_option ((@) fileUrls) (mount_urls g fs))"

text \<open>\<^verbatim>\<open>installOptimizedDependencies\<close>: the install options it assembles are passed to
  the installer and read nowhere else, so the installer is a function of the targets.\<close>

definition installOptimizedDependencies ::
  "build_env \<Rightarrow> string list \<Rightarrow> build_state \<Rightarrow> (error \<times> build_state) + (build_state \<times> ImportMap)" where
  "installOptimizedDependencies env installTargets st =
     (let st' = st\<lparr>events := events st @ [InstallPackages installTargets]\<rparr>
      in case installPackages env installTargets of
           Inl err \<Rightarrow> Inl (err, st')
         | Inr m \<Rightarrow> Inr (st', m))"

text \<open>What \<^verbatim>\<open>build\<close> leaves: in watch mode the variables its change handler closes over,
  otherwise the final state and the output directory after \<^verbatim>\<open>removeEmptyFolders\<close>
  (\<open>None\<close> when the directory itself was removed).\<close>

datatype build_outcome =
    Watching (outcome_state: build_state) (outcome_importMap: "ImportMap option")
  | Complete (outcome_state: build_state) (buildDirectory: "fs_node option")

definition initial_events :: "SnowpackConfig \<Rightarrow> event list" where
  "initial_events config =
     (if buildOptions_clean config then [DeleteFromBuildSafe] else []) @ [MkdirpSync, StartServer]"

text \<open>Lines 147 to 164: the packages are installed unless in watch mode.\<close>

definition optimize_packages ::
  "build_env \<Rightarrow> SnowpackConfig \<Rightarrow> build_state \<Rightarrow>
     (error \<times> build_state) + (build_state \<times> ImportMap option)" where
  "optimize_packages env config st =
     (if \<not> buildOptions_watch config then
        (case installOptimizedDependencies env (allBareModuleSpecifiers st) st of
           Inl thrown \<Rightarrow> Inl thrown
         | Inr (st', m) \<Rightarrow> Inr (st', Some m))
      else Inr (st, None))"

text \<open>Lines 210 to 227: the optimize steps, \<^verbatim>\<open>removeEmptyFolders(buildDirectoryLoc)\<close>, the
  cleanup step and the shutdown.  The external steps are taken to succeed.\<close>

definition post_build :: "build_env \<Rightarrow> SnowpackConfig \<Rightarrow> build_state \<Rightarrow> build_outcome" where
  "post_build env config st =
     (let st4 = (if has_optimize config
                 then st\<lparr>events := events st @ [RunBuiltInOptimize, RunPipelineOptimizeStep]\<rparr>
                 else st);
          buildDirectory = fst (removeEmptyFolders (outputTree env (events st4)))
      in Complete
           (st4\<lparr>events := events st4 @ [RemoveEmptyFolders, RunPipelineCleanupStep, Shutdown]\<rparr>)
           buildDirectory)"

text \<open>The state before the first pass (lines 96 to 112), and the options of the two
  passes (lines 139 and 169 to 174).\<close>

definition initial_state :: "SnowpackConfig \<Rightarrow> string list \<Rightarrow> build_state" where
  "initial_state config allFileUrls =
     \<lparr>allBareModuleSpecifiers = [], allFileUrlsUnique = Set_of allFileUrls,
      allFileUrlsToProcess = Set_of allFileUrls, events = initial_events config\<rparr>"

definition pass1_options :: "SnowpackConfig \<Rightarrow> LoadUrlOptions" where
  "pass1_options config =
     \<lparr>isSSR = buildOptions_ssr config, isHMR = getIsHmrEnabled config,
      isResolve = False, importMap = None\<rparr>"

definition pass2_options :: "SnowpackConfig \<Rightarrow> ImportMap option \<Rightarrow> LoadUrlOptions" where
  "pass2_options config optimizedImportMap =
     \<lparr>isSSR = buildOptions_ssr config, isHMR = getIsHmrEnabled config,
      isResolve = True, importMap = optimizedImportMap\<rparr>"

definition build ::
  "build_env \<Rightarrow> SnowpackConfig \<Rightarrow> ((error \<times> build_state) + build_outcome) option" where
  "build env config =
     (case mount_urls (getUrlsForFile env) (mountedFiles env) of
        None \<Rightarrow> Some (Inl (NotIterable, initial_state config []))
      | Some allFileUrls \<Rightarrow>
          (case flushFileQueue env False (pass1_options config)
                  (initial_state config allFileUrls) of
             None \<Rightarrow> None
           | Some (Inl thrown) \<Rightarrow> Some (Inl thrown)
           | Some (Inr st1) \<Rightarrow>
               (case optimize_packages env config st1 of
                  Inl thrown \<Rightarrow> Some (Inl thrown)
                | Inr (st2, optimizedImportMap) \<Rightarrow>
                    (case flushFileQueue env (\<not> buildOptions_watch config)
                            (pass2_options config optimizedImportMap)
                            (st2\<lparr>allFileUrlsToProcess := allFileUrlsUnique st2\<rparr>) of
                       None \<Rightarrow> None
                     | Some (Inl thrown) \<Rightarrow> Some (Inl thrown)
                     | Some (Inr st3) \<Rightarrow>
                         (if buildOptions_watch config
                          then Some (Inr (Watching st3 optimizedImportMap))
                          else Some (Inr (post_build env config st3)))))))"


text \<open>\<^verbatim>\<open>command\<close>: an error of \<^verbatim>\<open>build\<close> is logged and the process exits with code 1; in
  watch mode the promise returned never resolves.\<close>

datatype command_outcome = ProcessExit nat | NeverResolves | Resolved

definition command :: "build_env \<Rightarrow> SnowpackConfig \<Rightarrow> command_outcome option" where
  "command env config =
     (case build env config of
        None \<Rightarrow> None
      | Some (Inl thrown) \<Rightarrow> Some (ProcessExit 1)
      | Some (Inr outcome) \<Rightarrow>
          (if buildOptions_watch config then Some NeverResolves else Some Resolved))"

section \<open>Notions used to state the properties\<close>

subsection \<open>Import records\<close>

text \<open>The spans of a list of records lie in the text, in order and without overlap,
  from position \<open>pos\<close> on: what the lexer reports.\<close>

fun spans_ok :: "nat \<Rightarrow> nat \<Rightarrow> import_spec list \<Rightarrow> bool" where
  "spans_ok pos n [] = True"
| "spans_ok pos n (i # is) =
     (pos \<le> imp_s i \<and> imp_s i \<le> imp_e i \<and> imp_e i \<le> n \<and> spans_ok (imp_e i) n is)"

text \<open>The text from \<open>pos\<close> on with every span replaced by what is spliced in for it.\<close>

fun weave ::
  "imports_env \<Rightarrow> (string \<Rightarrow> string) \<Rightarrow> string \<Rightarrow> nat \<Rightarrow> import_spec list \<Rightarrow> string" where
  "weave env r code pos [] = drop pos code"
| "weave env r code pos (i # is) =
     take (imp_s i - pos) (drop pos code)
       @ rewrittenImport env r i (String_substring code (imp_s i) (imp_e i))
       @ weave env r code (imp_e i) is"





subsection \<open>The crawler\<close>


fun load_options :: "event list \<Rightarrow> LoadUrlOptions list" where
  "load_options [] = []"
| "load_options (LoadUrl url opts # es) = opts # load_options es"
| "load_options (ev # es) = load_options es"

fun installs :: "event list \<Rightarrow> string list list" where
  "installs [] = []"
| "installs (InstallPackages targets # es) = targets # installs es"
| "installs (ev # es) = installs es"

fun callbacks :: "event list \<Rightarrow> string list" where
  "callbacks [] = []"
| "callbacks (OnFileChangeCallback filePath # es) = filePath # callbacks es"
| "callbacks (ev # es) = callbacks es"

text \<open>Effects of a crawl: no install, no callback, and every load with the given options.\<close>

definition crawl_events :: "LoadUrlOptions \<Rightarrow> event list \<Rightarrow> bool" where
  "crawl_events opts ev \<longleftrightarrow>
     installs ev = [] \<and> callbacks ev = [] \<and> (\<forall>o'\<in>set (load_options ev). o' = opts)"

text \<open>The state a flush ends in, returned or thrown.\<close>

definition final_state :: "(error \<times> build_state) + build_state \<Rightarrow> build_state" where
  "final_state res = (case res of Inl (err, st') \<Rightarrow> st' | Inr st' \<Rightarrow> st')"

text \<open>The queue holds no URL twice, only discovered URLs, and none of the URLs already
  processed.\<close>

definition queue_ok :: "build_state \<Rightarrow> string list \<Rightarrow> bool" where
  "queue_ok st processed \<longleftrightarrow>
     distinct (allFileUrlsToProcess st) \<and> distinct processed \<and>
     set (allFileUrlsToProcess st) \<subseteq> set (allFileUrlsUnique st) \<and>
     set processed \<subseteq> set (allFileUrlsUnique st) \<and>
     set processed \<inter> set (allFileUrlsToProcess st) = {}"

definition flush_post ::
  "(build_state \<Rightarrow> bool) \<Rightarrow> (error \<times> build_state \<Rightarrow> bool) \<Rightarrow>
     (error \<times> build_state) + build_state \<Rightarrow> bool" where
  "flush_post I T res =
     (case res of Inl thrown \<Rightarrow> T thrown
                | Inr st' \<Rightarrow> I st' \<and> allFileUrlsToProcess st' = [])"


subsection \<open>Directory trees\<close>

fun has_file :: "fs_node \<Rightarrow> bool" where
  "has_file (File c) = True"
| "has_file (Dir files) = (\<exists>entry\<in>set files. has_file (snd entry))"

fun no_empty_folder :: "fs_node \<Rightarrow> bool" where
  "no_empty_folder (File c) = True"
| "no_empty_folder (Dir files) =
     (files \<noteq> [] \<and> (\<forall>entry\<in>set files. no_empty_folder (snd entry)))"

subsection \<open>A sample project\<close>

text \<open>A dev server for a project of three files: \<^verbatim>\<open>/index.html\<close> imports \<^verbatim>\<open>/a.js\<close>,
  which imports the package \<^verbatim>\<open>lodash\<close>, the page and itself; \<^verbatim>\<open>/new.js\<close> imports nothing,
  and any other URL is served as an empty file.
  Only \<^verbatim>\<open>src/index.html\<close> is mounted when the build starts.\<close>

definition sample_loadUrl :: "string \<Rightarrow> LoadUrlOptions \<Rightarrow> error + load_result" where
  "sample_loadUrl url opts =
     (if url = ''/index.html''
        then Inr \<lparr>res_contents = ''<html>'', res_imports = [''/a.js'']\<rparr>
      else if url = ''/a.js''
        then Inr \<lparr>res_contents = ''js'', res_imports = [''lodash'', ''/index.html'', ''/a.js'']\<rparr>
      else if url = ''/new.js''
        then Inr \<lparr>res_contents = ''new'', res_imports = []\<rparr>
      else Inr \<lparr>res_contents = [], res_imports = []\<rparr>)"

definition sample_env :: build_env where
  "sample_env =
     \<lparr>loadUrl = sample_loadUrl,
      getUrlsForFile =
        (\<lambda>f. if f = ''src/index.html'' then Some [''/index.html'']
             else if f = ''src/new.js'' then Some [''/new.js'']
             else None),
      mountedFiles = [''src/index.html''],
      pkgUrlPrefix = ''/_snowpack/pkg/'',
      installPackages = (\<lambda>targets. Inr (map (\<lambda>t. (t, ''/_snowpack/pkg/'' @ t @ ''.js'')) targets)),
      outputTree =
        (\<lambda>ev. Dir [(''index.html'', File ''<html>''), (''a.js'', File ''js''),
                  (''assets'', Dir [(''img'', Dir [])])])\<rparr>"

definition sample_config :: SnowpackConfig where
  "sample_config =
     \<lparr>buildOptions_watch = False, buildOptions_ssr = False, buildOptions_clean = True,
      devOptions_hmr = False, has_optimize = True\<rparr>"




text \<open>The files of a tree, each with its path from the root and its contents; the files
  of what is left of a tree.\<close>

fun file_paths :: "fs_node \<Rightarrow> (string list \<times> string) list" where
  "file_paths (File c) = [([], c)]"
| "file_paths (Dir files) =
     concat (map (\<lambda>(name, n). map (\<lambda>(path, c). (name # path, c)) (file_paths n)) files)"

definition files_left :: "fs_node option \<Rightarrow> (string list \<times> string) list" where
  "files_left r = (case r of None \<Rightarrow> [] | Some n \<Rightarrow> file_paths n)"

text \<open>The state of a watch session on the sample project between two notifications.\<close>

definition watching_state :: build_state where
  "watching_state =
     \<lparr>allBareModuleSpecifiers = [''lodash''], allFileUrlsUnique = [''/index.html'', ''/a.js''],
      allFileUrlsToProcess = [], events = []\<rparr>"

text \<open>A dev server whose every load fails with the error of \<^verbatim>\<open>transformFileImports\<close>.\<close>

definition failing_env :: build_env where
  "failing_env = sample_env\<lparr>loadUrl := (\<lambda>url opts. Inl (IncompatibleFileType ''.ts''))\<rparr>"

text \<open>An output directory that holds nothing but an empty directory.\<close>

definition emptied_env :: build_env where
  "emptied_env = sample_env\<lparr>outputTree := (\<lambda>ev. Dir [(''assets'', Dir [])])\<rparr>"

subsection \<open>A sample page and a sample dynamic import\<close>





text \<open>A lexer that reports one dynamic import, the span between the parentheses of
  \<^verbatim>\<open>import(/*c*/ './a.js' )\<close>, and the value \<^verbatim>\<open>matchDynamicImportValue\<close> finds in it.\<close>

definition dynamic_env :: imports_env where
  \<open>dynamic_env =
     \<lparr>parse = (\<lambda>code. Some [\<lparr>imp_s = 7, imp_e = 22, imp_d = 0\<rparr>]),
      matchDynamicImportValue =
        (\<lambda>spec. if spec = ''/*c*/ './a.js' '' then Some ''./a.js'' else None),
      HTML_JS_REGEX = no_match_regexp, CSS_REGEX = css_import_regexp,
      HTML_STYLE_REGEX = no_match_regexp\<rparr>\<close>

section \<open>Lemmas\<close>

text \<open>The loops are evaluated by their defining equations.\<close>

declare flushFileQueue.simps[code] transformCssImports_loop.simps[code]
  transformHtmlImports_js.simps[code] transformHtmlImports_css.simps[code]

lemma spans_ok_mono: "spans_ok pos n is \<Longrightarrow> pos' \<le> pos \<Longrightarrow> spans_ok pos' n is"
  by (cases "is") auto

lemma spans_ok_filter: "spans_ok pos n is \<Longrightarrow> spans_ok pos n (filter P is)"
proof (induction "is" arbitrary: pos)
  case Nil
  then show ?case by simp
next
  case (Cons i "is")
  then have rest: "spans_ok (imp_e i) n (filter P is)" by simp
  show ?case
  proof (cases "P i")
    case True
    with Cons.prems rest show ?thesis by simp
  next
    case False
    from Cons.prems have "pos \<le> imp_e i" by simp
    with rest False show ?thesis by (simp add: spans_ok_mono)
  qed
qed

lemma substring_ordered: "a \<le> b \<Longrightarrow> String_substring str a b = take (b - a) (drop a str)"
  by (simp add: String_substring_def max_def min_def)

lemma take_split: "pos \<le> s \<Longrightarrow> take pos code @ take (s - pos) (drop pos code) = take s code"
  using take_add[of pos "s - pos" code] by simp

lemma step_weave:
  assumes "pos \<le> imp_s i" "imp_s i \<le> imp_e i" "imp_e i \<le> length code"
  shows "transformEsmImports_step env r i (take (imp_e i) code @ rest) =
         take pos code @ take (imp_s i - pos) (drop pos code)
           @ rewrittenImport env r i (String_substring code (imp_s i) (imp_e i)) @ rest"
proof -
  have sub: "String_substring (take (imp_e i) code @ rest) (imp_s i) (imp_e i)
             = String_substring code (imp_s i) (imp_e i)"
    using assms by (simp add: substring_ordered drop_take)
  have "take (imp_s i) (take (imp_e i) code @ rest) = take (imp_s i) code"
    using assms by (simp add: min_def)
  then have pre: "take (imp_s i) (take (imp_e i) code @ rest)
                  = take pos code @ take (imp_s i - pos) (drop pos code)"
    using assms(1) by (simp only: take_split)
  have post: "drop (imp_e i) (take (imp_e i) code @ rest) = rest"
    using assms by simp
  show ?thesis
    unfolding transformEsmImports_step_def spliceString_def sub pre post by simp
qed

lemma fold_weave:
  "spans_ok pos (length code) is \<Longrightarrow>
   fold (transformEsmImports_step env r) (rev is) code = take pos code @ weave env r code pos is"
proof (induction "is" arbitrary: pos)
  case Nil
  then show ?case by simp
next
  case (Cons i "is")
  then have "fold (transformEsmImports_step env r) (rev is) code
             = take (imp_e i) code @ weave env r code (imp_e i) is"
    by simp
  moreover from Cons.prems have "pos \<le> imp_s i" "imp_s i \<le> imp_e i" "imp_e i \<le> length code"
    by simp_all
  ultimately show ?case
    by (simp add: step_weave)
qed

lemma weave_contains:
  "i \<in> set is \<Longrightarrow>
   \<exists>pre post. weave env r code pos is
      = pre @ rewrittenImport env r i (String_substring code (imp_s i) (imp_e i)) @ post"
proof (induction "is" arbitrary: pos)
  case Nil
  then show ?case by simp
next
  case (Cons j "is")
  show ?case
  proof (cases "i = j")
    case True
    then have "weave env r code pos (j # is) = take (imp_s j - pos) (drop pos code)
        @ rewrittenImport env r i (String_substring code (imp_s i) (imp_e i))
        @ weave env r code (imp_e j) is"
      by simp
    then show ?thesis by blast
  next
    case False
    with Cons.prems have "i \<in> set is" by simp
    from Cons.IH[OF this, of "imp_e j"] obtain pre post where
      "weave env r code (imp_e j) is
        = pre @ rewrittenImport env r i (String_substring code (imp_s i) (imp_e i)) @ post"
      by blast
    then have "weave env r code pos (j # is) = (take (imp_s j - pos) (drop pos code)
       @ rewrittenImport env r j (String_substring code (imp_s j) (imp_e j)) @ pre)
       @ rewrittenImport env r i (String_substring code (imp_s i) (imp_e i)) @ post"
      by simp
    then show ?thesis by blast
  qed
qed

lemma sublist_join_space: "c \<in> set ms \<Longrightarrow> sublist c (join_space ms)"
proof (induction ms rule: join_space.induct)
  case 1
  then show ?case by simp
next
  case (2 x)
  then show ?case by simp
next
  case (3 x y ys)
  show ?case
  proof (cases "c = x")
    case True
    then show ?thesis by (simp add: sublist_append_rightI) 
  next
    case False
    with 3 have "sublist c (join_space (y # ys))" by simp
    then obtain ps ss where "join_space (y # ys) = ps @ c @ ss"
      unfolding sublist_def by blast
    then have "join_space (x # y # ys) = (x @ '' '' @ ps) @ c @ ss" by simp
    then show ?thesis unfolding sublist_def by blast
  qed
qed

lemma scan_error: "scanCodeImportsExports env code = Inl err \<Longrightarrow> err = LexerError"
  by (auto simp: scanCodeImportsExports_def split: option.splits)

lemma esm_error: "transformEsmImports env code r = Inl err \<Longrightarrow> err = LexerError"
  by (auto simp: transformEsmImports_def split: sum.splits dest: scan_error)

lemma html_js_error_aux:
  "transformHtmlImports_js env r code li = Some res \<Longrightarrow> \<forall>err. res = Inl err \<longrightarrow> err = LexerError"
  by (rule transformHtmlImports_js.raw_induct
        [where P = "\<lambda>env r code li res. \<forall>err. res = Inl err \<longrightarrow> err = LexerError"])
     (auto split: prod.splits option.splits if_splits sum.splits dest: esm_error)

lemma html_js_error:
  "transformHtmlImports_js env r code li = Some (Inl err) \<Longrightarrow> err = LexerError"
  using html_js_error_aux by blast

lemma html_error: "transformHtmlImports env code r = Some (Inl err) \<Longrightarrow> err = LexerError"
  by (auto simp: transformHtmlImports_def split: option.splits sum.splits dest: html_js_error)

lemma file_error_iff:
  "(\<exists>ext. transformFileImports env file r = Some (Inl (IncompatibleFileType ext)))
     \<longleftrightarrow> baseExt file \<notin> {''.js'', ''.html'', ''.css''}"
  by (auto simp: transformFileImports_def dest: html_error esm_error)






lemma Set_add_distinct: "distinct xs \<Longrightarrow> distinct (Set_add x xs)"
  by (simp add: Set_add_def)

lemma Set_add_prefix: "prefix xs (Set_add x xs)"
  by (simp add: Set_add_def)

lemma add_import_events: "events (add_import u st) = events st"
  by (simp add: add_import_def)


lemma fold_add_import_events: "events (fold add_import is st) = events st"
  by (induction "is" arbitrary: st) (simp_all add: add_import_events)




lemma queue_ok_events: "queue_ok (st\<lparr>events := ev\<rparr>) done = queue_ok st done"
  by (simp add: queue_ok_def)



lemma flush_turn_cases:
  assumes "allFileUrlsToProcess st \<noteq> []"
  obtains
    (skip) "ignorePkg" "startsWith (last (allFileUrlsToProcess st)) (pkgUrlPrefix env)"
      "flush_turn env ignorePkg opts st
         = Inr (st\<lparr>allFileUrlsToProcess := butlast (allFileUrlsToProcess st)\<rparr>)"
  | (thrown) err where
      "loadUrl env (last (allFileUrlsToProcess st)) opts = Inl err"
      "flush_turn env ignorePkg opts st
         = Inl (err, st\<lparr>allFileUrlsToProcess := butlast (allFileUrlsToProcess st),
                         events := events st @ [LoadUrl (last (allFileUrlsToProcess st)) opts]\<rparr>)"
  | (loaded) result where
      "loadUrl env (last (allFileUrlsToProcess st)) opts = Inr result"
      "flush_turn env ignorePkg opts st
         = Inr (fold add_import (res_imports result)
             (st\<lparr>allFileUrlsToProcess := butlast (allFileUrlsToProcess st),
                 events := events st @ [LoadUrl (last (allFileUrlsToProcess st)) opts,
                    Mkdirp (last (allFileUrlsToProcess st)),
                    WriteFile (last (allFileUrlsToProcess st)) (res_contents result)]\<rparr>))"
proof (cases "ignorePkg \<and> startsWith (last (allFileUrlsToProcess st)) (pkgUrlPrefix env)")
  case True
  then have "flush_turn env ignorePkg opts st
         = Inr (st\<lparr>allFileUrlsToProcess := butlast (allFileUrlsToProcess st)\<rparr>)"
    by (simp add: flush_turn_def)
  with True show ?thesis using skip by blast
next
  case False
  show ?thesis
  proof (cases "loadUrl env (last (allFileUrlsToProcess st)) opts")
    case (Inl err)
    with False have "flush_turn env ignorePkg opts st
         = Inl (err, st\<lparr>allFileUrlsToProcess := butlast (allFileUrlsToProcess st),
                         events := events st @ [LoadUrl (last (allFileUrlsToProcess st)) opts]\<rparr>)"
      by (auto simp: flush_turn_def Let_def)
    with Inl show ?thesis by (rule thrown)
  next
    case (Inr result)
    with False have "flush_turn env ignorePkg opts st
         = Inr (fold add_import (res_imports result)
             (st\<lparr>allFileUrlsToProcess := butlast (allFileUrlsToProcess st),
                 events := events st @ [LoadUrl (last (allFileUrlsToProcess st)) opts,
                    Mkdirp (last (allFileUrlsToProcess st)),
                    WriteFile (last (allFileUrlsToProcess st)) (res_contents result)]\<rparr>))"
      by (auto simp: flush_turn_def Let_def)
    with Inr show ?thesis by (rule loaded)
  qed
qed

lemma flush_invariant_aux:
  assumes turn_ok: "\<And>st st'. I st \<Longrightarrow> allFileUrlsToProcess st \<noteq> [] \<Longrightarrow>
            flush_turn env ignorePkg opts st = Inr st' \<Longrightarrow> I st'"
      and turn_thrown: "\<And>st thrown. I st \<Longrightarrow> allFileUrlsToProcess st \<noteq> [] \<Longrightarrow>
            flush_turn env ignorePkg opts st = Inl thrown \<Longrightarrow> T thrown"
  shows "flushFileQueue env' ignorePkg' opts' st = Some res \<Longrightarrow>
         env' = env \<and> ignorePkg' = ignorePkg \<and> opts' = opts \<and> I st \<longrightarrow> flush_post I T res"
proof (rule flushFileQueue.raw_induct
        [where P = "\<lambda>env' ignorePkg' opts' st res.
           env' = env \<and> ignorePkg' = ignorePkg \<and> opts' = opts \<and> I st \<longrightarrow> flush_post I T res"],
       goal_cases)
  case (1 f e g p s r)
  show ?case
  proof (intro impI, elim conjE)
    assume eqs: "e = env" "g = ignorePkg" "p = opts" and inv: "I s"
    show "flush_post I T r"
    proof (cases "allFileUrlsToProcess s = []")
      case True
      with 1(3) inv show ?thesis by (auto simp: flush_post_def)
    next
      case False
      show ?thesis
      proof (cases "flush_turn env ignorePkg opts s")
        case (Inl thrown)
        from 1(3) False Inl eqs have "r = Inl thrown" by simp
        moreover from turn_thrown[OF inv False Inl] have "T thrown" .
        ultimately show ?thesis by (simp add: flush_post_def)
      next
        case (Inr st')
        from 1(3) False Inr eqs have "f env ignorePkg opts st' = Some r" by simp
        moreover from turn_ok[OF inv False Inr] have "I st'" .
        ultimately show ?thesis using 1(2) by blast
      qed
    qed
  qed
qed

lemma flush_invariant:
  assumes "flushFileQueue env ignorePkg opts st = Some res" "I st"
      and "\<And>st st'. I st \<Longrightarrow> allFileUrlsToProcess st \<noteq> [] \<Longrightarrow>
            flush_turn env ignorePkg opts st = Inr st' \<Longrightarrow> I st'"
      and "\<And>st thrown. I st \<Longrightarrow> allFileUrlsToProcess st \<noteq> [] \<Longrightarrow>
            flush_turn env ignorePkg opts st = Inl thrown \<Longrightarrow> T thrown"
  shows "flush_post I T res"
  using flush_invariant_aux[of I env ignorePkg opts T env ignorePkg opts st res] assms by blast



lemma flush_post_final: "flush_post I (\<lambda>thrown. I (snd thrown)) res \<Longrightarrow> I (final_state res)"
  by (auto simp: flush_post_def final_state_def split: sum.splits)

lemma flush_state_invariant:
  assumes "flushFileQueue env ignorePkg opts st = Some res" "I st"
      and "\<And>st. I st \<Longrightarrow> allFileUrlsToProcess st \<noteq> [] \<Longrightarrow>
            I (final_state (flush_turn env ignorePkg opts st))"
  shows "I (final_state res)"
proof (rule flush_post_final, rule flush_invariant[OF assms(1), of I])
  show "I st" by fact
next
  fix s s' assume "I s" "allFileUrlsToProcess s \<noteq> []" "flush_turn env ignorePkg opts s = Inr s'"
  with assms(3)[of s] show "I s'" by (simp add: final_state_def)
next
  fix s thrown assume "I s" "allFileUrlsToProcess s \<noteq> []" "flush_turn env ignorePkg opts s = Inl thrown"
  with assms(3)[of s] show "I (snd thrown)" by (simp add: final_state_def split: prod.splits)
qed









lemma kept_entries_empty: "kept_entries es = [] \<longleftrightarrow> (\<forall>entry\<in>set es. snd entry = None)"
  by (induction es rule: kept_entries.induct) auto

lemma kept_entries_set:
  "set (kept_entries es) = {(name, n). (name, Some n) \<in> set es}"
  by (induction es rule: kept_entries.induct) auto

lemma removed_dir_iff:
  "fst (removeEmptyFolders (Dir files)) = None \<longleftrightarrow>
     (\<forall>entry\<in>set files. fst (removeEmptyFolders (snd entry)) = None)"
proof (cases "files = []")
  case True
  then show ?thesis by simp
next
  case False
  have "kept_entries (map (\<lambda>(name, n). (name, fst (removeEmptyFolders n))) files) = [] \<longleftrightarrow>
        (\<forall>entry\<in>set files. fst (removeEmptyFolders (snd entry)) = None)"
    by (simp add: kept_entries_empty case_prod_beta)
  with False show ?thesis by (simp add: Let_def)
qed

lemma removed_iff_no_file: "fst (removeEmptyFolders n) = None \<longleftrightarrow> \<not> has_file n"
proof (induction n rule: removeEmptyFolders.induct)
  case (1 c)
  then show ?case by simp
next
  case (2 files)
  show ?case
  proof (cases "files = []")
    case True
    then show ?thesis by simp
  next
    case False
    have "fst (removeEmptyFolders (Dir files)) = None \<longleftrightarrow>
          (\<forall>entry\<in>set files. fst (removeEmptyFolders (snd entry)) = None)"
      by (rule removed_dir_iff)
    also have "\<dots> \<longleftrightarrow> (\<forall>entry\<in>set files. \<not> has_file (snd entry))"
      using 2[OF False] by (metis prod.collapse)
    finally show ?thesis by simp
  qed
qed

lemma cleaned_no_empty_folder:
  "fst (removeEmptyFolders n) = Some n' \<Longrightarrow> no_empty_folder n'"
proof (induction n arbitrary: n' rule: removeEmptyFolders.induct)
  case (1 c)
  then show ?case by auto
next
  case (2 files)
  show ?case
  proof (cases "files = []")
    case True
    with 2(2) show ?thesis by simp
  next
    case False
    let ?after = "kept_entries (map (\<lambda>(name, n). (name, fst (removeEmptyFolders n))) files)"
    from 2(2) False have ne: "?after \<noteq> []" and n': "n' = Dir ?after"
      by (auto simp: Let_def split: if_splits)
    have "no_empty_folder (snd entry)" if "entry \<in> set ?after" for entry
    proof -
      obtain name x where e: "entry = (name, x)" by (cases entry)
      with that have "(name, Some x) \<in> set (map (\<lambda>(name, n). (name, fst (removeEmptyFolders n))) files)"
        by (simp add: kept_entries_set)
      then obtain y where "(name, y) \<in> set files" "fst (removeEmptyFolders y) = Some x"
        by auto
      with 2(1)[OF False] e show ?thesis by auto
    qed
    with ne n' show ?thesis by simp
  qed
qed

lemma kept_entries_paths:
  assumes "\<forall>entry\<in>set es. files_left (fst (removeEmptyFolders (snd entry))) = file_paths (snd entry)"
  shows "concat (map (\<lambda>(name, n). map (\<lambda>(path, c). (name # path, c)) (file_paths n))
           (kept_entries (map (\<lambda>(name, n). (name, fst (removeEmptyFolders n))) es)))
         = concat (map (\<lambda>(name, n). map (\<lambda>(path, c). (name # path, c)) (file_paths n)) es)"
  using assms
proof (induction es)
  case Nil
  then show ?case by simp
next
  case (Cons entry es)
  obtain name n where e: "entry = (name, n)" by (cases entry)
  from Cons.prems e have here: "files_left (fst (removeEmptyFolders n)) = file_paths n" by simp
  from Cons have rest: "concat (map (\<lambda>(name, n). map (\<lambda>(path, c). (name # path, c)) (file_paths n))
           (kept_entries (map (\<lambda>(name, n). (name, fst (removeEmptyFolders n))) es)))
         = concat (map (\<lambda>(name, n). map (\<lambda>(path, c). (name # path, c)) (file_paths n)) es)"
    by simp
  show ?case
  proof (cases "fst (removeEmptyFolders n)")
    case None
    with here have "file_paths n = []" by (simp add: files_left_def)
    with None e rest show ?thesis by simp
  next
    case (Some n')
    with here have "file_paths n' = file_paths n" by (simp add: files_left_def)
    with Some e rest show ?thesis by simp
  qed
qed

lemma files_kept: "files_left (fst (removeEmptyFolders n)) = file_paths n"
proof (induction n rule: removeEmptyFolders.induct)
  case (1 c)
  then show ?case by (simp add: files_left_def)
next
  case (2 files)
  show ?case
  proof (cases "files = []")
    case True
    then show ?thesis by (simp add: files_left_def)
  next
    case False
    let ?after = "kept_entries (map (\<lambda>(name, n). (name, fst (removeEmptyFolders n))) files)"
    have "\<forall>entry\<in>set files. files_left (fst (removeEmptyFolders (snd entry))) = file_paths (snd entry)"
      using 2[OF False] by (metis prod.collapse)
    from kept_entries_paths[OF this]
    have eq: "file_paths (Dir ?after) = file_paths (Dir files)" by simp
    show ?thesis
    proof (cases "?after = []")
      case True
      with False eq show ?thesis by (simp add: files_left_def Let_def)
    next
      case ne: False
      with False have "fst (removeEmptyFolders (Dir files)) = Some (Dir ?after)"
        by (simp add: Let_def)
      with eq show ?thesis by (simp add: files_left_def del: file_paths.simps)
    qed
  qed
qed

lemma installs_append: "installs (xs @ ys) = installs xs @ installs ys"
  by (induction xs rule: installs.induct) simp_all

lemma callbacks_append: "callbacks (xs @ ys) = callbacks xs @ callbacks ys"
  by (induction xs rule: callbacks.induct) simp_all

lemma load_options_append: "load_options (xs @ ys) = load_options xs @ load_options ys"
  by (induction xs rule: load_options.induct) simp_all

lemma crawl_events_append:
  "crawl_events opts xs \<Longrightarrow> crawl_events opts ys \<Longrightarrow> crawl_events opts (xs @ ys)"
  by (auto simp: crawl_events_def installs_append callbacks_append load_options_append)

lemma flush_turn_events:
  assumes "allFileUrlsToProcess st \<noteq> []"
  shows "\<exists>ev. events (final_state (flush_turn env ignorePkg opts st)) = events st @ ev \<and>
              crawl_events opts ev"
  using assms
proof (cases rule: flush_turn_cases[where st=st and ignorePkg=ignorePkg and env=env and opts=opts])
  case skip
  then show ?thesis by (simp add: final_state_def crawl_events_def)
next
  case (thrown err)
  then show ?thesis by (simp add: final_state_def crawl_events_def)
next
  case (loaded result)
  then show ?thesis by (simp add: final_state_def crawl_events_def fold_add_import_events)
qed

lemma flush_events:
  assumes "flushFileQueue env ignorePkg opts st = Some res"
  shows "\<exists>ev. events (final_state res) = events st @ ev \<and> crawl_events opts ev"
proof (rule flush_state_invariant[OF assms,
         of "\<lambda>s. \<exists>ev. events s = events st @ ev \<and> crawl_events opts ev"])
  show "\<exists>ev. events st = events st @ ev \<and> crawl_events opts ev"
    by (simp add: crawl_events_def)
next
  fix s :: build_state
  assume "\<exists>ev. events s = events st @ ev \<and> crawl_events opts ev" "allFileUrlsToProcess s \<noteq> []"
  then obtain ev ev' where "events s = events st @ ev" "crawl_events opts ev"
    "events (final_state (flush_turn env ignorePkg opts s)) = events s @ ev'" "crawl_events opts ev'"
    using flush_turn_events[of s env ignorePkg opts] by blast
  then have "events (final_state (flush_turn env ignorePkg opts s)) = events st @ (ev @ ev')"
    "crawl_events opts (ev @ ev')"
    by (simp_all add: crawl_events_append)
  then show "\<exists>ev. events (final_state (flush_turn env ignorePkg opts s)) = events st @ ev \<and>
              crawl_events opts ev"
    by blast
qed





lemma initial_events_installs: "installs (initial_events config) = []"
  by (simp add: initial_events_def)

lemma optimize_packages_watch:
  "buildOptions_watch config \<Longrightarrow> optimize_packages env config st = Inr (st, None)"
  by (simp add: optimize_packages_def)

lemma optimize_packages_build:
  assumes "\<not> buildOptions_watch config" "optimize_packages env config st = Inr (st2, m)"
  shows "\<exists>im. installPackages env (allBareModuleSpecifiers st) = Inr im \<and> m = Some im \<and>
           st2 = st\<lparr>events := events st @ [InstallPackages (allBareModuleSpecifiers st)]\<rparr>"
  using assms
  by (auto simp: optimize_packages_def installOptimizedDependencies_def Let_def
           split: sum.splits)

lemma post_build_state:
  "events (outcome_state (post_build env config st)) =
     events st @ (if has_optimize config then [RunBuiltInOptimize, RunPipelineOptimizeStep] else [])
       @ [RemoveEmptyFolders, RunPipelineCleanupStep, Shutdown]"
  by (simp add: post_build_def Let_def)

lemma post_build_directory:
  "buildDirectory (post_build env config st) =
     fst (removeEmptyFolders (outputTree env
       (events st @ (if has_optimize config then [RunBuiltInOptimize, RunPipelineOptimizeStep] else []))))"
  by (simp add: post_build_def Let_def)

lemma build_cases:
  assumes "build env config = Some (Inr outcome)"
  obtains allFileUrls st1 st2 m st3 where
    "mount_urls (getUrlsForFile env) (mountedFiles env) = Some allFileUrls"
    "flushFileQueue env False (pass1_options config) (initial_state config allFileUrls)
       = Some (Inr st1)"
    "optimize_packages env config st1 = Inr (st2, m)"
    "flushFileQueue env (\<not> buildOptions_watch config) (pass2_options config m)
       (st2\<lparr>allFileUrlsToProcess := allFileUrlsUnique st2\<rparr>) = Some (Inr st3)"
    "outcome = (if buildOptions_watch config then Watching st3 m else post_build env config st3)"
  using assms unfolding build_def
  by (auto split: option.splits sum.splits prod.splits if_splits)

lemma build_thrown_pass1:
  assumes "mount_urls (getUrlsForFile env) (mountedFiles env) = Some allFileUrls"
      and "flushFileQueue env False (pass1_options config) (initial_state config allFileUrls)
             = Some (Inl thrown)"
  shows "build env config = Some (Inl thrown)"
  using assms by (simp add: build_def)

lemma build_thrown_pass2:
  assumes "mount_urls (getUrlsForFile env) (mountedFiles env) = Some allFileUrls"
      and "flushFileQueue env False (pass1_options config) (initial_state config allFileUrls)
             = Some (Inr st1)"
      and "optimize_packages env config st1 = Inr (st2, m)"
      and "flushFileQueue env (\<not> buildOptions_watch config) (pass2_options config m)
             (st2\<lparr>allFileUrlsToProcess := allFileUrlsUnique st2\<rparr>) = Some (Inl thrown)"
  shows "build env config = Some (Inl thrown)"
  using assms by (simp add: build_def)

lemma flush_load_fails:
  assumes "allFileUrlsToProcess st \<noteq> []"
      and "\<not> (ignorePkg \<and> startsWith (last (allFileUrlsToProcess st)) (pkgUrlPrefix env))"
      and "loadUrl env (last (allFileUrlsToProcess st)) opts = Inl err"
  shows "flushFileQueue env ignorePkg opts st =
           Some (Inl (err, st\<lparr>allFileUrlsToProcess := butlast (allFileUrlsToProcess st),
                         events := events st @ [LoadUrl (last (allFileUrlsToProcess st)) opts]\<rparr>))"
proof -
  from assms(2,3) have "flush_turn env ignorePkg opts st =
      Inl (err, st\<lparr>allFileUrlsToProcess := butlast (allFileUrlsToProcess st),
                         events := events st @ [LoadUrl (last (allFileUrlsToProcess st)) opts]\<rparr>)"
    by (auto simp: flush_turn_def Let_def)
  with assms(1) show ?thesis by (subst flushFileQueue.simps) simp
qed

lemma flush_thrown_installs:
  assumes "flushFileQueue env ignorePkg opts st = Some (Inl thrown)"
  shows "installs (events (snd thrown)) = installs (events st)"
  using flush_events[OF assms]
  by (auto simp: final_state_def installs_append crawl_events_def split: prod.splits)

lemma flush_returned_installs:
  assumes "flushFileQueue env ignorePkg opts st = Some (Inr st')"
  shows "installs (events st') = installs (events st)"
  using flush_events[OF assms]
  by (auto simp: final_state_def installs_append crawl_events_def)

lemma build_watch_thrown:
  assumes "buildOptions_watch config \<and> build env config = Some (Inl thrown)"
  shows "installs (events (snd thrown)) = []"
proof (cases "mount_urls (getUrlsForFile env) (mountedFiles env)")
  case None
  with assms show ?thesis
    by (auto simp: build_def initial_state_def initial_events_installs)
next
  case (Some allFileUrls)
  from assms have w: "buildOptions_watch config" and b: "build env config = Some (Inl thrown)"
    by simp_all
  have i0: "installs (events (initial_state config allFileUrls)) = []"
    by (simp add: initial_state_def initial_events_installs)
  show ?thesis
  proof (cases "flushFileQueue env False (pass1_options config) (initial_state config allFileUrls)")
    case None
    with Some b show ?thesis by (simp add: build_def)
  next
    case p1: (Some res1)
    show ?thesis
    proof (cases res1)
      case (Inl th)
      with Some p1 b have "thrown = th" by (simp add: build_def)
      with flush_thrown_installs[of env False "pass1_options config"
             "initial_state config allFileUrls" th] p1 Inl i0
      show ?thesis by simp
    next
      case (Inr st1)
      with flush_returned_installs[of env False "pass1_options config"
             "initial_state config allFileUrls" st1] p1 i0
      have i1: "installs (events st1) = []" by simp
      from w have opt: "optimize_packages env config st1 = Inr (st1, None)"
        by (simp add: optimize_packages_watch)
      show ?thesis
      proof (cases "flushFileQueue env (\<not> buildOptions_watch config) (pass2_options config None)
                      (st1\<lparr>allFileUrlsToProcess := allFileUrlsUnique st1\<rparr>)")
        case None
        with Some p1 Inr opt w b show ?thesis by (simp add: build_def)
      next
        case p2: (Some res2)
        show ?thesis
        proof (cases res2)
          case th: (Inl th2)
          with Some p1 Inr opt p2 w b have "thrown = th2" by (simp add: build_def)
          with flush_thrown_installs[of env "\<not> buildOptions_watch config"
                 "pass2_options config None"
                 "st1\<lparr>allFileUrlsToProcess := allFileUrlsUnique st1\<rparr>" th2] p2 th i1
          show ?thesis by simp
        next
          case r: (Inr st3)
          with Some p1 Inr opt p2 w b show ?thesis by (simp add: build_def)
        qed
      qed
    qed
  qed
qed


lemma css_loop_match:
  assumes "RegExp_exec (CSS_REGEX env) code lastIndex = (Some m, lastIndex')"
  shows "transformCssImports_loop env replaceImport code lastIndex =
         transformCssImports_loop env replaceImport
           (spliceString code (css_rule replaceImport (m_group1 m))
              (m_index m) (m_index m + length (m_full m))) lastIndex'"
  using assms by (subst transformCssImports_loop.simps) simp

lemma css_loop_done:
  assumes "fst (RegExp_exec (CSS_REGEX env) code lastIndex) = None"
  shows "transformCssImports_loop env replaceImport code lastIndex = Some code"
  using assms by (subst transformCssImports_loop.simps) (auto split: prod.splits)


















lemma sample_css_exec:
  \<open>RegExp_exec (CSS_REGEX css_env) ''a{} @import   'b.css'; b{}'' 0 =
     (Some \<lparr>m_index = 4, m_full = ''@import   'b.css';'', m_group1 = ''b.css'', m_group2 = []\<rparr>, 22)\<close>
  by code_simp

lemma sample_css_exec_end:
  \<open>fst (RegExp_exec (CSS_REGEX css_env) ''a{} @import "/b.css"; b{}'' 22) = None\<close>
  by code_simp

lemma dynamic_sample:
  \<open>transformEsmImports dynamic_env ''import(/*c*/ './a.js' )'' (\<lambda>spec. ''/b.js'')
     = Inr ''import(/*c*/ "/b.js")''\<close>
  by code_simp

section \<open>The crawler terminates (C8)\<close>



section \<open>What the crawler does with a specifier (C2)\<close>




section \<open>The two passes of the build (C3)\<close>

text \<open>
  C3.  A build that returns has run the first pass on the mounted URLs; then, if and only
  if watch mode is off, it has handed all of \<^verbatim>\<open>allBareModuleSpecifiers\<close> as it stands after
  the first pass to the package installer, exactly once, and received the import map
  (in watch mode there is no install and no import map); then it has reset
  \<^verbatim>\<open>allFileUrlsToProcess\<close> to all of \<^verbatim>\<open>allFileUrlsUnique\<close> and run the crawler with
  \<^verbatim>\<open>isResolve\<close> true, that import map, and \<^verbatim>\<open>ignorePkg\<close> true exactly when watch mode is
  off.  A build in watch mode that ends with an error has not run the installer either.
\<close>

theorem build_two_passes:
  "(build env config = Some (Inr outcome) \<longrightarrow>
     (\<exists>allFileUrls st1 st2 m st3.
        mount_urls (getUrlsForFile env) (mountedFiles env) = Some allFileUrls \<and>
        flushFileQueue env False (pass1_options config) (initial_state config allFileUrls)
          = Some (Inr st1) \<and>
        (buildOptions_watch config \<longrightarrow> st2 = st1 \<and> m = None) \<and>
        (\<not> buildOptions_watch config \<longrightarrow>
           (\<exists>im. installPackages env (allBareModuleSpecifiers st1) = Inr im \<and> m = Some im) \<and>
           st2 = st1\<lparr>events := events st1 @ [InstallPackages (allBareModuleSpecifiers st1)]\<rparr>) \<and>
        flushFileQueue env (\<not> buildOptions_watch config)
          \<lparr>isSSR = buildOptions_ssr config, isHMR = getIsHmrEnabled config,
           isResolve = True, importMap = m\<rparr>
          (st2\<lparr>allFileUrlsToProcess := allFileUrlsUnique st2\<rparr>) = Some (Inr st3) \<and>
        outcome = (if buildOptions_watch config then Watching st3 m
                   else post_build env config st3) \<and>
        installs (events (outcome_state outcome))
          = (if buildOptions_watch config then [] else [allBareModuleSpecifiers st1]))) \<and>
   (buildOptions_watch config \<and> build env config = Some (Inl thrown) \<longrightarrow>
      installs (events (snd thrown)) = [])"
proof (intro conjI impI)
  assume "build env config = Some (Inr outcome)"
  then obtain allFileUrls st1 st2 m st3 where
    mount: "mount_urls (getUrlsForFile env) (mountedFiles env) = Some allFileUrls" and
    p1: "flushFileQueue env False (pass1_options config) (initial_state config allFileUrls)
       = Some (Inr st1)" and
    opt: "optimize_packages env config st1 = Inr (st2, m)" and
    p2: "flushFileQueue env (\<not> buildOptions_watch config) (pass2_options config m)
       (st2\<lparr>allFileUrlsToProcess := allFileUrlsUnique st2\<rparr>) = Some (Inr st3)" and
    out: "outcome = (if buildOptions_watch config then Watching st3 m else post_build env config st3)"
    by (rule build_cases)
  from flush_events[OF p1] have i1: "installs (events st1) = []"
    by (auto simp: final_state_def initial_state_def initial_events_installs installs_append
          crawl_events_def)
  from flush_events[OF p2] have i3: "installs (events st3) = installs (events st2)"
    by (auto simp: final_state_def installs_append crawl_events_def)
  have w: "buildOptions_watch config \<longrightarrow> st2 = st1 \<and> m = None"
    using opt by (auto simp: optimize_packages_watch)
  have nw: "\<not> buildOptions_watch config \<longrightarrow>
        (\<exists>im. installPackages env (allBareModuleSpecifiers st1) = Inr im \<and> m = Some im) \<and>
        st2 = st1\<lparr>events := events st1 @ [InstallPackages (allBareModuleSpecifiers st1)]\<rparr>"
    using optimize_packages_build[OF _ opt] by blast
  have inst: "installs (events (outcome_state outcome))
       = (if buildOptions_watch config then [] else [allBareModuleSpecifiers st1])"
  proof (cases "buildOptions_watch config")
    case True
    with w out i1 i3 show ?thesis by simp
  next
    case False
    with nw have "installs (events st2) = [allBareModuleSpecifiers st1]"
      by (simp add: installs_append i1)
    with False out i3 show ?thesis
      by (simp add: post_build_state installs_append)
  qed
  from mount p1 w nw p2 out inst
  show "\<exists>allFileUrls st1 st2 m st3.
        mount_urls (getUrlsForFile env) (mountedFiles env) = Some allFileUrls \<and>
        flushFileQueue env False (pass1_options config) (initial_state config allFileUrls)
          = Some (Inr st1) \<and>
        (buildOptions_watch config \<longrightarrow> st2 = st1 \<and> m = None) \<and>
        (\<not> buildOptions_watch config \<longrightarrow>
           (\<exists>im. installPackages env (allBareModuleSpecifiers st1) = Inr im \<and> m = Some im) \<and>
           st2 = st1\<lparr>events := events st1 @ [InstallPackages (allBareModuleSpecifiers st1)]\<rparr>) \<and>
        flushFileQueue env (\<not> buildOptions_watch config)
          \<lparr>isSSR = buildOptions_ssr config, isHMR = getIsHmrEnabled config,
           isResolve = True, importMap = m\<rparr>
          (st2\<lparr>allFileUrlsToProcess := allFileUrlsUnique st2\<rparr>) = Some (Inr st3) \<and>
        outcome = (if buildOptions_watch config then Watching st3 m
                   else post_build env config st3) \<and>
        installs (events (outcome_state outcome))
          = (if buildOptions_watch config then [] else [allBareModuleSpecifiers st1])"
    unfolding pass2_options_def by blast
next
  assume "buildOptions_watch config \<and> build env config = Some (Inl thrown)"
  then show "installs (events (snd thrown)) = []"
    by (rule build_watch_thrown)
qed

lemma sample_mount: "mount_urls (getUrlsForFile sample_env) (mountedFiles sample_env) = Some [''/index.html'']"
  by (simp add: sample_env_def)

lemma sample_build_returns: "\<exists>outcome. build sample_env sample_config = Some (Inr outcome)"
proof -
  have "(case build sample_env sample_config of Some (Inr outcome) \<Rightarrow> True | _ \<Rightarrow> False)"
    by code_simp
  then show ?thesis by (auto split: option.splits sum.splits)
qed

text \<open>The build of the sample project, watch mode off: one install, of the bare
  specifiers of the first pass.\<close>

theorem build_two_passes_witness:
  "\<exists>outcome st1.
     build sample_env sample_config = Some (Inr outcome) \<and>
     flushFileQueue sample_env False (pass1_options sample_config)
       (initial_state sample_config [''/index.html'']) = Some (Inr st1) \<and>
     installs (events (outcome_state outcome)) = [allBareModuleSpecifiers st1]"
proof -
  from sample_build_returns obtain outcome
    where b: "build sample_env sample_config = Some (Inr outcome)" by blast
  have nw: "\<not> buildOptions_watch sample_config" by (simp add: sample_config_def)
  from build_two_passes[of sample_env sample_config outcome] nw sample_mount b
  show ?thesis by auto
qed

section \<open>A file change in watch mode (C4)\<close>





section \<open>Incompatible file types (C7)\<close>

text \<open>
  C7.  \<^verbatim>\<open>transformFileImports\<close> fails with the incompatible-file-type error if and only
  if the extension is none of \<^verbatim>\<open>.js\<close>, \<^verbatim>\<open>.html\<close>, \<^verbatim>\<open>.css\<close>, and for those three it never
  raises that error (the error then names the extension).  Such a failure aborts the
  build: an error that a load returns leaves \<^verbatim>\<open>flushFileQueue\<close>, an error that leaves
  either pass leaves \<^verbatim>\<open>build\<close>, and on an error of \<^verbatim>\<open>build\<close> the command exits the process
  with code 1.
\<close>

theorem transformFileImports_incompatible:
  "((\<exists>ext. transformFileImports ienv file replaceImport = Some (Inl (IncompatibleFileType ext)))
      \<longleftrightarrow> baseExt file \<notin> {''.js'', ''.html'', ''.css''}) \<and>
   (baseExt file \<notin> {''.js'', ''.html'', ''.css''} \<longrightarrow>
      transformFileImports ienv file replaceImport
        = Some (Inl (IncompatibleFileType (baseExt file)))) \<and>
   (allFileUrlsToProcess st \<noteq> [] \<and>
    \<not> (ignorePkg \<and> startsWith (last (allFileUrlsToProcess st)) (pkgUrlPrefix env)) \<and>
    loadUrl env (last (allFileUrlsToProcess st)) opts = Inl err \<longrightarrow>
      (\<exists>st'. flushFileQueue env ignorePkg opts st = Some (Inl (err, st')))) \<and>
   (mount_urls (getUrlsForFile env) (mountedFiles env) = Some allFileUrls \<and>
    flushFileQueue env False (pass1_options config) (initial_state config allFileUrls)
      = Some (Inl thrown) \<longrightarrow>
      build env config = Some (Inl thrown)) \<and>
   (mount_urls (getUrlsForFile env) (mountedFiles env) = Some allFileUrls \<and>
    flushFileQueue env False (pass1_options config) (initial_state config allFileUrls)
      = Some (Inr st1) \<and>
    optimize_packages env config st1 = Inr (st2, m) \<and>
    flushFileQueue env (\<not> buildOptions_watch config) (pass2_options config m)
      (st2\<lparr>allFileUrlsToProcess := allFileUrlsUnique st2\<rparr>) = Some (Inl thrown) \<longrightarrow>
      build env config = Some (Inl thrown)) \<and>
   (build env config = Some (Inl thrown) \<longrightarrow> command env config = Some (ProcessExit 1))"
proof (intro conjI impI)
  show "(\<exists>ext. transformFileImports ienv file replaceImport = Some (Inl (IncompatibleFileType ext)))
      \<longleftrightarrow> baseExt file \<notin> {''.js'', ''.html'', ''.css''}"
    by (rule file_error_iff)
next
  assume "baseExt file \<notin> {''.js'', ''.html'', ''.css''}"
  then show "transformFileImports ienv file replaceImport
        = Some (Inl (IncompatibleFileType (baseExt file)))"
    by (simp add: transformFileImports_def)
next
  assume "allFileUrlsToProcess st \<noteq> [] \<and>
    \<not> (ignorePkg \<and> startsWith (last (allFileUrlsToProcess st)) (pkgUrlPrefix env)) \<and>
    loadUrl env (last (allFileUrlsToProcess st)) opts = Inl err"
  then show "\<exists>st'. flushFileQueue env ignorePkg opts st = Some (Inl (err, st'))"
    using flush_load_fails by blast
next
  assume "mount_urls (getUrlsForFile env) (mountedFiles env) = Some allFileUrls \<and>
    flushFileQueue env False (pass1_options config) (initial_state config allFileUrls)
      = Some (Inl thrown)"
  then show "build env config = Some (Inl thrown)"
    using build_thrown_pass1 by blast
next
  assume "mount_urls (getUrlsForFile env) (mountedFiles env) = Some allFileUrls \<and>
    flushFileQueue env False (pass1_options config) (initial_state config allFileUrls)
      = Some (Inr st1) \<and>
    optimize_packages env config st1 = Inr (st2, m) \<and>
    flushFileQueue env (\<not> buildOptions_watch config) (pass2_options config m)
      (st2\<lparr>allFileUrlsToProcess := allFileUrlsUnique st2\<rparr>) = Some (Inl thrown)"
  then show "build env config = Some (Inl thrown)"
    using build_thrown_pass2 by blast
next
  assume "build env config = Some (Inl thrown)"
  then show "command env config = Some (ProcessExit 1)"
    by (simp add: command_def)
qed

lemma failing_build:
  "build failing_env sample_config =
     Some (Inl (IncompatibleFileType ''.ts'',
        \<lparr>allBareModuleSpecifiers = [], allFileUrlsUnique = [''/index.html''],
         allFileUrlsToProcess = [],
         events = [DeleteFromBuildSafe, MkdirpSync, StartServer,
                   LoadUrl ''/index.html'' (pass1_options sample_config)]\<rparr>))"
  by code_simp

text \<open>A file with the extension \<^verbatim>\<open>.ts\<close>, and a build whose first load fails with the
  error.\<close>

theorem transformFileImports_incompatible_witness:
  "transformFileImports css_env \<lparr>baseExt = ''.ts'', contents = ''let x''\<rparr> id
     = Some (Inl (IncompatibleFileType ''.ts'')) \<and>
   build failing_env sample_config =
     Some (Inl (IncompatibleFileType ''.ts'',
        \<lparr>allBareModuleSpecifiers = [], allFileUrlsUnique = [''/index.html''],
         allFileUrlsToProcess = [],
         events = [DeleteFromBuildSafe, MkdirpSync, StartServer,
                   LoadUrl ''/index.html'' (pass1_options sample_config)]\<rparr>)) \<and>
   command failing_env sample_config = Some (ProcessExit 1)"
proof -
  have ext: "baseExt \<lparr>baseExt = ''.ts'', contents = ''let x''\<rparr> \<notin> {''.js'', ''.html'', ''.css''}"
    by simp
  from transformFileImports_incompatible
         [of css_env "\<lparr>baseExt = ''.ts'', contents = ''let x''\<rparr>" id _ _ failing_env _ _ _
             sample_config
             "(IncompatibleFileType ''.ts'',
        \<lparr>allBareModuleSpecifiers = [], allFileUrlsUnique = [''/index.html''],
         allFileUrlsToProcess = [],
         events = [DeleteFromBuildSafe, MkdirpSync, StartServer,
                   LoadUrl ''/index.html'' (pass1_options sample_config)]\<rparr>)"]
       ext failing_build
  show ?thesis by simp
qed

section \<open>Empty folders (C9)\<close>

text \<open>
  C9, amended.  \<^verbatim>\<open>removeEmptyFolders\<close> never removes a file; it removes a directory if and
  only if, after its children were cleaned, no entry is left, which is so exactly when no
  file lies beneath the directory; what it leaves holds no empty directory and every
  file of the tree, at its path and with its contents.  The build
  applies it to the output root directory itself, so the root is removed as well when it
  ends up empty.
\<close>

theorem removeEmptyFolders_removes:
  "fst (removeEmptyFolders (File c)) = Some (File c) \<and>
   (fst (removeEmptyFolders (Dir files)) = None \<longleftrightarrow>
      (\<forall>entry\<in>set files. fst (removeEmptyFolders (snd entry)) = None)) \<and>
   (fst (removeEmptyFolders n) = None \<longleftrightarrow> \<not> has_file n) \<and>
   (fst (removeEmptyFolders n) = Some n' \<longrightarrow> no_empty_folder n') \<and>
   files_left (fst (removeEmptyFolders n)) = file_paths n \<and>
   (buildDirectory (post_build env config st) = None \<longleftrightarrow>
      \<not> has_file (outputTree env (events st @
          (if has_optimize config then [RunBuiltInOptimize, RunPipelineOptimizeStep] else []))))"
  using removed_dir_iff[of files] removed_iff_no_file cleaned_no_empty_folder[of n n']
    files_kept[of n]
  by (simp add: post_build_directory)

text \<open>The output tree of the sample project.\<close>

theorem removeEmptyFolders_removes_witness:
  "fst (removeEmptyFolders
         (Dir [(''index.html'', File ''<html>''), (''a.js'', File ''js''),
               (''assets'', Dir [(''img'', Dir [])])]))
     = Some (Dir [(''index.html'', File ''<html>''), (''a.js'', File ''js'')]) \<and>
   no_empty_folder (Dir [(''index.html'', File ''<html>''), (''a.js'', File ''js'')])"
proof -
  have e: "fst (removeEmptyFolders
         (Dir [(''index.html'', File ''<html>''), (''a.js'', File ''js''),
               (''assets'', Dir [(''img'', Dir [])])]))
     = Some (Dir [(''index.html'', File ''<html>''), (''a.js'', File ''js'')])"
    by code_simp
  with removeEmptyFolders_removes[of _ _
         "Dir [(''index.html'', File ''<html>''), (''a.js'', File ''js''),
               (''assets'', Dir [(''img'', Dir [])])]"
         "Dir [(''index.html'', File ''<html>''), (''a.js'', File ''js'')]"]
  show ?thesis by blast
qed

text \<open>The claim as stated fails: an output root that holds nothing but an empty directory
  is removed itself.\<close>

theorem removeEmptyFolders_root_counterexample:
  "buildDirectory (post_build emptied_env sample_config watching_state) = None \<and>
   outputTree emptied_env
     (events watching_state @ [RunBuiltInOptimize, RunPipelineOptimizeStep])
     = Dir [(''assets'', Dir [])]"
  by code_simp

section \<open>Rewriting with the identity (C1)\<close>




section \<open>The proxy suffix in a stylesheet rule (C5)\<close>

text \<open>
  C5.  The rule emitted for a replacement that ends in \<^verbatim>\<open>.proxy.js\<close> should hold the
  replacement without that suffix.  The code removes the first occurrence of
  \<^verbatim>\<open>.proxy.js\<close> instead: for the replacement \<^verbatim>\<open>/a.proxy.js/x.css.proxy.js\<close> it emits
  \<^verbatim>\<open>/a/x.css.proxy.js\<close>, where the suffix is still in place.  For the replacement of the
  spec's example, \<^verbatim>\<open>/pkg/x.proxy.js\<close>, the only occurrence is the suffix and the rule
  emitted is the one the spec gives.
\<close>

theorem transformCssImports_proxy_first_occurrence:
  \<open>transformCssImports css_env ''@import "x.css";'' (\<lambda>x. ''/a.proxy.js/x.css.proxy.js'')
     = Some ''@import "/a/x.css.proxy.js";'' \<and>
   transformCssImports css_env ''@import "x.css";'' (\<lambda>x. ''/pkg/x.proxy.js'')
     = Some ''@import "/pkg/x";''\<close>
  by code_simp

section \<open>Dynamic imports (C6)\<close>

text \<open>
  C6.  Let the lexer report records whose spans lie in the text in order and without
  overlap.  For every dynamic-import record the scanner keeps and every replacement
  function, the rewritten text holds, in one piece: the magic comments found in the
  record's span, joined by single spaces and followed by a space (nothing when there is
  none), then the replacement of the import's value as a JSON string literal.  So every
  magic comment of the span stands verbatim in the rewritten text.
\<close>

theorem transformEsmImports_dynamic:
  assumes "parse env code = Some imports"
      and "spans_ok 0 (length code) imports"
      and "imp \<in> set imports" and "keep_import env code imp" and "imp_d imp > - 1"
  shows "\<exists>out pre post.
      transformEsmImports env code replaceImport = Inr out \<and>
      out = pre
        @ (case match_magic_comments (String_substring code (imp_s imp) (imp_e imp)) of
             None \<Rightarrow> [] | Some ms \<Rightarrow> join_space ms @ '' '')
        @ JSON_stringify (replaceImport
            (case matchDynamicImportValue env (String_substring code (imp_s imp) (imp_e imp)) of
               None \<Rightarrow> [] | Some v \<Rightarrow> v))
        @ post \<and>
      (\<forall>c\<in>set (magic_comments (String_substring code (imp_s imp) (imp_e imp))). sublist c out)"
proof -
  let ?span = "String_substring code (imp_s imp) (imp_e imp)"
  let ?kept = "filter (keep_import env code) imports"
  let ?json = "JSON_stringify (replaceImport
            (case matchDynamicImportValue env ?span of None \<Rightarrow> [] | Some v \<Rightarrow> v))"
  let ?comments = "case match_magic_comments ?span of
             None \<Rightarrow> [] | Some ms \<Rightarrow> join_space ms @ '' ''"
  have ok: "spans_ok 0 (length code) ?kept" using assms(2) by (rule spans_ok_filter)
  have out: "transformEsmImports env code replaceImport = Inr (weave env replaceImport code 0 ?kept)"
    using assms(1) fold_weave[OF ok, of env replaceImport]
    by (simp add: transformEsmImports_def scanCodeImportsExports_def)
  have "imp \<in> set ?kept" using assms(3,4) by simp
  from weave_contains[OF this, of env replaceImport code 0] obtain pre post where
    w: "weave env replaceImport code 0 ?kept = pre @ rewrittenImport env replaceImport imp ?span @ post"
    by blast
  have emitted: "rewrittenImport env replaceImport imp ?span = ?comments @ ?json"
    using assms(5) by (simp add: rewrittenImport_def Let_def split: option.splits)
  have shape: "weave env replaceImport code 0 ?kept = pre @ ?comments @ ?json @ post"
    using w emitted by simp
  have kept_comments: "sublist c (weave env replaceImport code 0 ?kept)"
    if c: "c \<in> set (magic_comments ?span)" for c
  proof -
    from c have ne: "magic_comments ?span \<noteq> []" by auto
    then have mm: "match_magic_comments ?span = Some (magic_comments ?span)"
      by (cases "magic_comments ?span") (simp_all add: match_magic_comments_def)
    from sublist_join_space[OF c] obtain ps ss where
      "join_space (magic_comments ?span) = ps @ c @ ss"
      unfolding sublist_def by blast
    with shape mm have "weave env replaceImport code 0 ?kept
        = (pre @ ps) @ c @ (ss @ '' '' @ ?json @ post)"
      by simp
    then show ?thesis unfolding sublist_def by blast
  qed
  from out shape kept_comments show ?thesis by blast
qed

text \<open>The sample dynamic import, with a replacement that returns \<^verbatim>\<open>/b.js\<close>.\<close>

theorem transformEsmImports_dynamic_witness:
  \<open>transformEsmImports dynamic_env ''import(/*c*/ './a.js' )'' (\<lambda>spec. ''/b.js'')
     = Inr ''import(/*c*/ "/b.js")'' \<and>
   magic_comments (String_substring ''import(/*c*/ './a.js' )'' 7 22) = [''/*c*/''] \<and>
   sublist ''/*c*/'' ''import(/*c*/ "/b.js")'' \<and>
   JSON_stringify ''/b.js'' = ''"/b.js"''\<close>
proof -
  have p: \<open>parse dynamic_env ''import(/*c*/ './a.js' )'' = Some [\<lparr>imp_s = 7, imp_e = 22, imp_d = 0\<rparr>]\<close>
    by (simp add: dynamic_env_def)
  have ok: \<open>spans_ok 0 (length ''import(/*c*/ './a.js' )'') [\<lparr>imp_s = 7, imp_e = 22, imp_d = 0\<rparr>]\<close>
    by simp
  have mem: \<open>\<lparr>imp_s = 7, imp_e = 22, imp_d = 0\<rparr> \<in> set [\<lparr>imp_s = 7, imp_e = 22, imp_d = 0\<rparr>]\<close>
    by simp
  have keep: \<open>keep_import dynamic_env ''import(/*c*/ './a.js' )'' \<lparr>imp_s = 7, imp_e = 22, imp_d = 0\<rparr>\<close>
    by code_simp
  have dyn: \<open>imp_d \<lparr>imp_s = 7, imp_e = 22, imp_d = 0\<rparr> > - 1\<close> by simp
  have mc: \<open>magic_comments (String_substring ''import(/*c*/ './a.js' )'' 7 22) = [''/*c*/'']\<close>
    by code_simp
  have js: \<open>JSON_stringify ''/b.js'' = ''"/b.js"''\<close> by code_simp
  from transformEsmImports_dynamic[OF p ok mem keep dyn, of \<open>\<lambda>spec. ''/b.js''\<close>]
  obtain out where
    o: \<open>transformEsmImports dynamic_env ''import(/*c*/ './a.js' )'' (\<lambda>spec. ''/b.js'') = Inr out\<close>
    and s: \<open>\<forall>c\<in>set (magic_comments (String_substring ''import(/*c*/ './a.js' )'' 7 22)). sublist c out\<close>
    by auto
  from o dynamic_sample have \<open>out = ''import(/*c*/ "/b.js")''\<close> by simp
  with s mc have \<open>sublist ''/*c*/'' ''import(/*c*/ "/b.js")''\<close> by simp
  with dynamic_sample mc js show ?thesis by simp
qed

section \<open>The canonical form of a stylesheet rule (C10)\<close>

text \<open>
  C10.  Every rule the stylesheet expression matches is replaced by the text
  \<^verbatim>\<open>@import "\<close>, the replacement with the first \<^verbatim>\<open>.proxy.js\<close> removed, \<^verbatim>\<open>";\<close>, whatever
  the quotes and the spacing of the rule matched: this is every turn of the loop, and the
  whole result for a stylesheet in which the expression finds one rule.  So rewriting
  with the identity can change the text: a rule in single quotes after three spaces is
  emitted in double quotes after one.
\<close>

theorem transformCssImports_canonical_rule:
  \<open>(RegExp_exec (CSS_REGEX env) code lastIndex = (Some m, lastIndex') \<longrightarrow>
      transformCssImports_loop env replaceImport code lastIndex =
      transformCssImports_loop env replaceImport
        (take (m_index m) code
           @ ''@import "'' @ String_replace ''.proxy.js'' [] (replaceImport (m_group1 m)) @ ''";''
           @ drop (m_index m + length (m_full m)) code)
        lastIndex') \<and>
   (RegExp_exec (CSS_REGEX env) code 0 = (Some m, lastIndex') \<and>
    fst (RegExp_exec (CSS_REGEX env)
          (take (m_index m) code
             @ ''@import "'' @ String_replace ''.proxy.js'' [] (replaceImport (m_group1 m)) @ ''";''
             @ drop (m_index m + length (m_full m)) code)
          lastIndex') = None \<longrightarrow>
      transformCssImports env code replaceImport =
        Some (take (m_index m) code
           @ ''@import "'' @ String_replace ''.proxy.js'' [] (replaceImport (m_group1 m)) @ ''";''
           @ drop (m_index m + length (m_full m)) code)) \<and>
   transformCssImports css_env ''@import   'a.css';'' id = Some ''@import "a.css";''\<close>
proof (intro conjI impI)
  assume "RegExp_exec (CSS_REGEX env) code lastIndex = (Some m, lastIndex')"
  from css_loop_match[OF this, of replaceImport]
  show \<open>transformCssImports_loop env replaceImport code lastIndex =
      transformCssImports_loop env replaceImport
        (take (m_index m) code
           @ ''@import "'' @ String_replace ''.proxy.js'' [] (replaceImport (m_group1 m)) @ ''";''
           @ drop (m_index m + length (m_full m)) code)
        lastIndex'\<close>
    by (simp add: spliceString_def css_rule_def)
next
  assume a: \<open>RegExp_exec (CSS_REGEX env) code 0 = (Some m, lastIndex') \<and>
    fst (RegExp_exec (CSS_REGEX env)
          (take (m_index m) code
             @ ''@import "'' @ String_replace ''.proxy.js'' [] (replaceImport (m_group1 m)) @ ''";''
             @ drop (m_index m + length (m_full m)) code)
          lastIndex') = None\<close>
  then have \<open>transformCssImports_loop env replaceImport code 0 =
      transformCssImports_loop env replaceImport
        (take (m_index m) code
           @ ''@import "'' @ String_replace ''.proxy.js'' [] (replaceImport (m_group1 m)) @ ''";''
           @ drop (m_index m + length (m_full m)) code)
        lastIndex'\<close>
    using css_loop_match[of env code 0 m lastIndex' replaceImport]
    by (simp add: spliceString_def css_rule_def)
  with a css_loop_done
  show \<open>transformCssImports env code replaceImport =
        Some (take (m_index m) code
           @ ''@import "'' @ String_replace ''.proxy.js'' [] (replaceImport (m_group1 m)) @ ''";''
           @ drop (m_index m + length (m_full m)) code)\<close>
    by (simp add: transformCssImports_def)
next
  show \<open>transformCssImports css_env ''@import   'a.css';'' id = Some ''@import "a.css";''\<close>
    by code_simp
qed

text \<open>A stylesheet with one rule, and a replacement that prefixes a slash.\<close>

theorem transformCssImports_canonical_rule_witness:
  \<open>transformCssImports css_env ''a{} @import   'b.css'; b{}'' (\<lambda>spec. ''/'' @ spec)
     = Some ''a{} @import "/b.css"; b{}''\<close>
proof -
  have e2: \<open>fst (RegExp_exec (CSS_REGEX css_env)
          (take 4 ''a{} @import   'b.css'; b{}''
             @ ''@import "'' @ String_replace ''.proxy.js'' [] (''/'' @ ''b.css'') @ ''";''
             @ drop (4 + length ''@import   'b.css';'') ''a{} @import   'b.css'; b{}'')
          22) = None\<close>
    using sample_css_exec_end by simp
  from transformCssImports_canonical_rule
         [of css_env \<open>''a{} @import   'b.css'; b{}''\<close> 0
             \<open>\<lparr>m_index = 4, m_full = ''@import   'b.css';'', m_group1 = ''b.css'', m_group2 = []\<rparr>\<close>
             22 \<open>\<lambda>spec. ''/'' @ spec\<close>]
       sample_css_exec e2
  show ?thesis by simp
qed

end
